theory Spec2Isabelle
  imports Main "HOL-Library.AList" "HOL-Library.Multiset"
begin

section \<open>Syntax trees of Python's \<^verbatim>\<open>ast\<close> module\<close>

text \<open>
  \<^verbatim>\<open>app.py\<close> analyses the tree that \<^verbatim>\<open>ast.parse\<close> returns. The analyses walk the tree
  generically (\<^verbatim>\<open>ast.walk\<close>) and test the class of each node with \<^verbatim>\<open>isinstance\<close>, so a
  node is a value of one untyped tree type. The classes the code tests for
  (\<^verbatim>\<open>FunctionDef\<close>, \<^verbatim>\<open>Name\<close>, \<^verbatim>\<open>Call\<close>) and the classes the specification contrasts them
  with (\<^verbatim>\<open>AsyncFunctionDef\<close>, \<^verbatim>\<open>Lambda\<close>, \<^verbatim>\<open>Attribute\<close>, \<^verbatim>\<open>Constant\<close>) have a constructor
  of their own, with their fields in the order of the class's \<^verbatim>\<open>_fields\<close>. Every other
  class is \<open>Located\<close> (statements, expressions, \<^verbatim>\<open>arg\<close>, \<^verbatim>\<open>keyword\<close>, ...: classes with a
  \<^verbatim>\<open>lineno\<close> attribute) or \<open>Unlocated\<close> (\<^verbatim>\<open>arguments\<close>, operators, \<^verbatim>\<open>comprehension\<close>, ...:
  classes without), with the class name and the child nodes in field order; fields of
  those classes that are not nodes are never read by the code and are left out.
\<close>

datatype expr_context = Load | Store | Del

datatype py_constant = Str string | Num int | Bool bool | NoneConst | OtherConst

datatype node =
    Module "node list" "node list"
      \<comment> \<open>body, type\_ignores\<close>
  | FunctionDef int string node "node list" "node list" "node option" "node list"
      \<comment> \<open>lineno; name, args, body, decorator\_list, returns, type\_params\<close>
  | AsyncFunctionDef int string node "node list" "node list" "node option" "node list"
      \<comment> \<open>lineno; name, args, body, decorator\_list, returns, type\_params\<close>
  | Lambda int node node
      \<comment> \<open>lineno; args, body\<close>
  | Call int node "node list" "node list"
      \<comment> \<open>lineno; func, args, keywords\<close>
  | Name int string expr_context
      \<comment> \<open>lineno; id, ctx\<close>
  | Attribute int node string expr_context
      \<comment> \<open>lineno; value, attr, ctx\<close>
  | Constant int py_constant
      \<comment> \<open>lineno; value\<close>
  | ExprContext expr_context
      \<comment> \<open>the \<^verbatim>\<open>Load()\<close>, \<^verbatim>\<open>Store()\<close>, \<^verbatim>\<open>Del()\<close> node held in a \<^verbatim>\<open>ctx\<close> field\<close>
  | Located string int "node list"
      \<comment> \<open>class name; lineno; child nodes in field order\<close>
  | Unlocated string "node list"
      \<comment> \<open>class name; child nodes in field order\<close>

text \<open>
  \<^verbatim>\<open>ast.iter_child_nodes(node)\<close>: the nodes held in the fields of \<open>node\<close>, in the order of
  \<^verbatim>\<open>_fields\<close>; a field holding a list contributes its node items, a field holding
  \<^verbatim>\<open>None\<close>, a string or a constant contributes nothing.
\<close>

fun opt_node :: "node option \<Rightarrow> node list" where
  "opt_node None = []"
| "opt_node (Some n) = [n]"

fun iter_child_nodes :: "node \<Rightarrow> node list" where
  "iter_child_nodes (Module body type_ignores) = body @ type_ignores"
| "iter_child_nodes (FunctionDef l name args body decorator_list returns type_params) =
     args # body @ decorator_list @ opt_node returns @ type_params"
| "iter_child_nodes (AsyncFunctionDef l name args body decorator_list returns type_params) =
     args # body @ decorator_list @ opt_node returns @ type_params"
| "iter_child_nodes (Lambda l args body) = [args, body]"
| "iter_child_nodes (Call l func args keywords) = func # args @ keywords"
| "iter_child_nodes (Name l ident ctx) = [ExprContext ctx]"
| "iter_child_nodes (Attribute l v attr ctx) = [v, ExprContext ctx]"
| "iter_child_nodes (Constant l v) = []"
| "iter_child_nodes (ExprContext ctx) = []"
| "iter_child_nodes (Located cls l children) = children"
| "iter_child_nodes (Unlocated cls children) = children"

text \<open>The number of nodes of a tree: the measure under which the walk terminates.\<close>

fun node_count :: "node \<Rightarrow> nat" where
  "node_count (Module body type_ignores) =
     Suc (sum_list (map node_count body) + sum_list (map node_count type_ignores))"
| "node_count (FunctionDef l name args body decorator_list returns type_params) =
     Suc (node_count args + sum_list (map node_count body)
       + sum_list (map node_count decorator_list)
       + (case returns of None \<Rightarrow> 0 | Some r \<Rightarrow> node_count r)
       + sum_list (map node_count type_params))"
| "node_count (AsyncFunctionDef l name args body decorator_list returns type_params) =
     Suc (node_count args + sum_list (map node_count body)
       + sum_list (map node_count decorator_list)
       + (case returns of None \<Rightarrow> 0 | Some r \<Rightarrow> node_count r)
       + sum_list (map node_count type_params))"
| "node_count (Lambda l args body) = Suc (node_count args + node_count body)"
| "node_count (Call l func args keywords) =
     Suc (node_count func + sum_list (map node_count args)
       + sum_list (map node_count keywords))"
| "node_count (Name l ident ctx) = 2"
| "node_count (Attribute l v attr ctx) = Suc (Suc (node_count v))"
| "node_count (Constant l v) = 1"
| "node_count (ExprContext ctx) = 1"
| "node_count (Located cls l children) = Suc (sum_list (map node_count children))"
| "node_count (Unlocated cls children) = Suc (sum_list (map node_count children))"

lemma node_count_children:
  "node_count n = Suc (sum_list (map node_count (iter_child_nodes n)))"
  by (cases n) (simp_all split: option.split)

lemma node_count_child: "c \<in> set (iter_child_nodes n) \<Longrightarrow> node_count c < node_count n"
  using member_le_sum_list [of "node_count c" "map node_count (iter_child_nodes n)"]
  by (simp add: node_count_children [of n] less_Suc_eq_le)

text \<open>
  \<^verbatim>\<open>ast.walk(node)\<close> of CPython: a queue that starts as \<^verbatim>\<open>deque([node])\<close>; while it is not
  empty, \<^verbatim>\<open>node = todo.popleft()\<close>, \<^verbatim>\<open>todo.extend(iter_child_nodes(node))\<close>,
  \<^verbatim>\<open>yield node\<close>. \<open>walk_todo\<close> is the loop on the queue, \<open>walk\<close> the generator's
  output as a list.
\<close>

function walk_todo :: "node list \<Rightarrow> node list" where
  "walk_todo [] = []"
| "walk_todo (node # todo) = node # walk_todo (todo @ iter_child_nodes node)"
  by pat_completeness auto
termination
  by (relation "measure (\<lambda>todo. sum_list (map node_count todo))")
     (simp_all add: node_count_children)

definition walk :: "node \<Rightarrow> node list" where
  "walk node = walk_todo [node]"

section \<open>The analyses of \<^verbatim>\<open>app.py\<close>\<close>

text \<open>
  Every analysis starts with \<^verbatim>\<open>tree = ast.parse(source_code)\<close> inside
  \<^verbatim>\<open>try: ... except Exception: return <empty>\<close>. The parser is CPython's, not this
  program's, so each analysis is a function of the outcome of that call: \<open>Inr tree\<close>
  when \<^verbatim>\<open>ast.parse\<close> returned \<open>tree\<close>, \<open>Inl e\<close> when it raised the exception \<open>e\<close>
  (\<^verbatim>\<open>SyntaxError\<close>, \<^verbatim>\<open>ValueError\<close>, \<^verbatim>\<open>RecursionError\<close>, \<^verbatim>\<open>MemoryError\<close>: all of them
  subclasses of \<^verbatim>\<open>Exception\<close>, which the handler catches).
\<close>

datatype exn = Exception string
  \<comment> \<open>an instance of a subclass of \<^verbatim>\<open>Exception\<close>, with the name of its class\<close>

type_synonym parsed = "exn + node"

text \<open>\<^verbatim>\<open>isinstance(node, ast.FunctionDef)\<close>; no other class of \<^verbatim>\<open>ast\<close> is a subclass.\<close>

fun is_FunctionDef :: "node \<Rightarrow> bool" where
  "is_FunctionDef (FunctionDef l name args body decorator_list returns type_params) = True"
| "is_FunctionDef _ = False"

text \<open>\<^verbatim>\<open>node.name\<close>, read only behind the \<^verbatim>\<open>isinstance\<close> test above.\<close>

fun node_name :: "node \<Rightarrow> string" where
  "node_name (FunctionDef l name args body decorator_list returns type_params) = name"
| "node_name (AsyncFunctionDef l name args body decorator_list returns type_params) = name"
| "node_name _ = undefined"

text \<open>\<^verbatim>\<open>node.lineno\<close>; \<open>None\<close> where the attribute is missing (\<^verbatim>\<open>AttributeError\<close>).\<close>

fun lineno :: "node \<Rightarrow> int option" where
  "lineno (Module body type_ignores) = None"
| "lineno (FunctionDef l name args body decorator_list returns type_params) = Some l"
| "lineno (AsyncFunctionDef l name args body decorator_list returns type_params) = Some l"
| "lineno (Lambda l args body) = Some l"
| "lineno (Call l func args keywords) = Some l"
| "lineno (Name l ident ctx) = Some l"
| "lineno (Attribute l v attr ctx) = Some l"
| "lineno (Constant l v) = Some l"
| "lineno (ExprContext ctx) = None"
| "lineno (Located cls l children) = Some l"
| "lineno (Unlocated cls children) = None"

subsection \<open>\<^verbatim>\<open>parse_python_functions\<close>\<close>

definition parse_python_functions :: "parsed \<Rightarrow> string list" where
  "parse_python_functions p =
     (case p of
        Inl e \<Rightarrow> []
      | Inr tree \<Rightarrow> map node_name (filter is_FunctionDef (walk tree)))"

subsection \<open>\<^verbatim>\<open>find_variable_usage\<close>\<close>

text \<open>
  The loop \<^verbatim>\<open>for node in ast.walk(tree)\<close> appending \<^verbatim>\<open>node.lineno\<close> to \<^verbatim>\<open>lines\<close> for
  every \<^verbatim>\<open>ast.Name\<close> node with \<^verbatim>\<open>node.id == var_name\<close>; the context of the node is
  not looked at.
\<close>

fun usage_lines :: "string \<Rightarrow> node list \<Rightarrow> int list" where
  "usage_lines var_name [] = []"
| "usage_lines var_name (Name l ident ctx # rest) =
     (if ident = var_name then l # usage_lines var_name rest
      else usage_lines var_name rest)"
| "usage_lines var_name (_ # rest) = usage_lines var_name rest"

definition find_variable_usage :: "parsed \<Rightarrow> string \<Rightarrow> int list" where
  "find_variable_usage p var_name =
     (case p of
        Inl e \<Rightarrow> []
      | Inr tree \<Rightarrow> sorted_list_of_set (set (usage_lines var_name (walk tree))))"

subsection \<open>\<^verbatim>\<open>find_long_functions\<close>\<close>

text \<open>
  \<^verbatim>\<open>node.body[-1].lineno - node.body[0].lineno + 1\<close>, evaluated only when \<^verbatim>\<open>node.body\<close>
  is not empty; a statement without \<^verbatim>\<open>lineno\<close> raises \<^verbatim>\<open>AttributeError\<close>.
\<close>

definition func_len :: "node list \<Rightarrow> exn + int" where
  "func_len body =
     (case (lineno (last body), lineno (hd body)) of
        (Some l, Some f) \<Rightarrow> Inr (l - f + 1)
      | _ \<Rightarrow> Inl (Exception ''AttributeError''))"

text \<open>The loop over the walk; \<open>long_funcs\<close> is the list built so far.\<close>

fun long_funcs_loop ::
  "int \<Rightarrow> node list \<Rightarrow> (string \<times> int) list \<Rightarrow> exn + (string \<times> int) list" where
  "long_funcs_loop length_threshold [] long_funcs = Inr long_funcs"
| "long_funcs_loop length_threshold
     (FunctionDef l name args body decorator_list returns type_params # rest) long_funcs =
     (if body \<noteq> [] then
        (case func_len body of
           Inl e \<Rightarrow> Inl e
         | Inr n \<Rightarrow>
             if n > length_threshold
             then long_funcs_loop length_threshold rest (long_funcs @ [(name, n)])
             else long_funcs_loop length_threshold rest long_funcs)
      else long_funcs_loop length_threshold rest long_funcs)"
| "long_funcs_loop length_threshold (_ # rest) long_funcs =
     long_funcs_loop length_threshold rest long_funcs"

definition find_long_functions :: "parsed \<Rightarrow> int \<Rightarrow> (string \<times> int) list" where
  "find_long_functions p length_threshold =
     (case p of
        Inl e \<Rightarrow> []
      | Inr tree \<Rightarrow>
          (case long_funcs_loop length_threshold (walk tree) [] of
             Inl e \<Rightarrow> []
           | Inr long_funcs \<Rightarrow> long_funcs))"

subsection \<open>\<^verbatim>\<open>build_call_graph\<close>\<close>

text \<open>
  \<^verbatim>\<open>networkx.DiGraph\<close>, as far as the program uses it: the nodes and the edges, each in
  insertion order and without repetition. \<^verbatim>\<open>add_node\<close> of a node already there changes
  nothing; \<^verbatim>\<open>add_edge(u, v)\<close> adds the end points that are missing, then the edge
  unless it is already there.
\<close>

record digraph =
  nodes :: "string list"
  edges :: "(string \<times> string) list"

definition DiGraph :: digraph where
  "DiGraph = \<lparr>nodes = [], edges = []\<rparr>"

definition add_node :: "digraph \<Rightarrow> string \<Rightarrow> digraph" where
  "add_node g n = (if n \<in> set (nodes g) then g else g\<lparr>nodes := nodes g @ [n]\<rparr>)"

definition add_edge :: "digraph \<Rightarrow> string \<Rightarrow> string \<Rightarrow> digraph" where
  "add_edge g u v =
     (let g' = add_node (add_node g u) v
      in if (u, v) \<in> set (edges g') then g' else g'\<lparr>edges := edges g' @ [(u, v)]\<rparr>)"

text \<open>
  \<^verbatim>\<open>funcs = {node.name: node for node in ast.walk(tree) if isinstance(node,
  ast.FunctionDef)}\<close>: a dictionary, so a name keeps the place of its first definition
  and the node of its last one.
\<close>

definition funcs_of :: "node \<Rightarrow> (string \<times> node) list" where
  "funcs_of tree =
     foldl (\<lambda>funcs node. AList.update (node_name node) node funcs) []
       (filter is_FunctionDef (walk tree))"

text \<open>
  \<^verbatim>\<open>isinstance(node, ast.Call) and isinstance(node.func, ast.Name)\<close>, and then
  \<^verbatim>\<open>node.func.id\<close>.
\<close>

fun direct_callee :: "node \<Rightarrow> string option" where
  "direct_callee (Call l (Name l' called_func ctx) args keywords) = Some called_func"
| "direct_callee _ = None"

text \<open>The body of the inner loop, \<^verbatim>\<open>for node in ast.walk(func_node)\<close>.\<close>

definition call_step :: "(string \<times> node) list \<Rightarrow> string \<Rightarrow> digraph \<Rightarrow> node \<Rightarrow> digraph" where
  "call_step funcs func_name graph node =
     (case direct_callee node of
        None \<Rightarrow> graph
      | Some called_func \<Rightarrow>
          if called_func \<in> set (map fst funcs)
          then add_edge graph func_name called_func
          else graph)"

text \<open>The body of the outer loop, \<^verbatim>\<open>for func_name, func_node in funcs.items()\<close>.\<close>

definition func_step :: "(string \<times> node) list \<Rightarrow> digraph \<Rightarrow> string \<times> node \<Rightarrow> digraph" where
  "func_step funcs graph item =
     foldl (call_step funcs (fst item)) (add_node graph (fst item)) (walk (snd item))"

definition build_call_graph :: "parsed \<Rightarrow> digraph" where
  "build_call_graph p =
     (case p of
        Inl e \<Rightarrow> DiGraph
      | Inr tree \<Rightarrow> (let funcs = funcs_of tree in foldl (func_step funcs) DiGraph funcs))"

section \<open>Structural views of a tree\<close>

text \<open>
  The claims speak of the nodes of the tree, of nesting and of traversal orders. These
  functions describe them by recursion on the tree, independently of the queue of
  \<open>walk\<close>: \<open>preorder\<close> lists a node, then the subtree of each child from left to right
  (depth first); \<open>nodes_at d\<close> lists the nodes \<open>d\<close> levels below a node, from left to
  right.
\<close>

function preorder :: "node \<Rightarrow> node list" where
  "preorder n = n # concat (map preorder (iter_child_nodes n))"
  by pat_completeness auto
termination
  by (relation "measure node_count") (simp_all add: node_count_child)

declare preorder.simps [simp del]

fun nodes_at :: "nat \<Rightarrow> node \<Rightarrow> node list" where
  "nodes_at 0 n = [n]"
| "nodes_at (Suc d) n = concat (map (nodes_at d) (iter_child_nodes n))"

definition level :: "nat \<Rightarrow> node list \<Rightarrow> node list" where
  "level d todo = concat (map (nodes_at d) todo)"

text \<open>The number of \<^verbatim>\<open>FunctionDef\<close> nodes of a tree, nested ones included.\<close>

definition count_FunctionDef :: "node \<Rightarrow> nat" where
  "count_FunctionDef tree = length (filter is_FunctionDef (preorder tree))"

text \<open>\<^verbatim>\<open>node.body\<close> of a function definition.\<close>

fun body_of :: "node \<Rightarrow> node list" where
  "body_of (FunctionDef l name args body decorator_list returns type_params) = body"
| "body_of (AsyncFunctionDef l name args body decorator_list returns type_params) = body"
| "body_of _ = []"

text \<open>
  The length that \<^verbatim>\<open>find_long_functions\<close> gives a function: the line of the last
  statement of the body minus the line of the first one, plus one.
\<close>

definition body_length :: "node \<Rightarrow> int" where
  "body_length n = the (lineno (last (body_of n))) - the (lineno (hd (body_of n))) + 1"

text \<open>
  Every statement in the body of a \<^verbatim>\<open>FunctionDef\<close> of the tree has a line number, as
  in every tree that \<^verbatim>\<open>ast.parse\<close> returns (\<^verbatim>\<open>lineno\<close> is an attribute of every
  statement class).
\<close>

definition stmts_located :: "node \<Rightarrow> bool" where
  "stmts_located tree =
     list_all (\<lambda>n. list_all (\<lambda>s. lineno s \<noteq> None) (body_of n))
       (filter is_FunctionDef (preorder tree))"

text \<open>
  The names called directly in the subtree of a node: the \<^verbatim>\<open>id\<close> of the \<^verbatim>\<open>func\<close> of
  every \<^verbatim>\<open>Call\<close> node whose \<^verbatim>\<open>func\<close> is a \<^verbatim>\<open>Name\<close>.
\<close>

definition callees :: "node \<Rightarrow> string list" where
  "callees func_node = List.map_filter direct_callee (preorder func_node)"

text \<open>The last \<^verbatim>\<open>FunctionDef\<close> node of the walk that has the given name.\<close>

definition last_def :: "node \<Rightarrow> string \<Rightarrow> node option" where
  "last_def tree a =
     List.find (\<lambda>n. node_name n = a) (rev (filter is_FunctionDef (walk tree)))"

section \<open>The specification's wording, for comparison\<close>

text \<open>
  The specification's call-graph edge: the body of a function definition named \<open>a\<close>
  contains a direct call whose callee is the bare name \<open>b\<close>, and \<open>b\<close> is a name of the
  catalog.
\<close>

definition spec_call_edge :: "node \<Rightarrow> string \<Rightarrow> string \<Rightarrow> bool" where
  "spec_call_edge tree a b =
     (list_ex (\<lambda>n. is_FunctionDef n \<and> node_name n = a
          \<and> b \<in> set (List.map_filter direct_callee (concat (map preorder (body_of n)))))
        (preorder tree)
      \<and> b \<in> set (parse_python_functions (Inr tree)))"

text \<open>
  The specification's usage index: the lines where the name is a read reference, a
  \<^verbatim>\<open>Name\<close> node in \<^verbatim>\<open>Load\<close> context.
\<close>

fun read_reference :: "string \<Rightarrow> node \<Rightarrow> bool" where
  "read_reference var_name (Name l ident ctx) = (ident = var_name \<and> ctx = Load)"
| "read_reference var_name _ = False"

definition spec_read_lines :: "node \<Rightarrow> string \<Rightarrow> int list" where
  "spec_read_lines tree var_name =
     sorted_list_of_set (set (List.map_filter lineno
       (filter (read_reference var_name) (preorder tree))))"

text \<open>
  The specification's FunctionRecord and length report: the length of a record is
  \<open>end_line - start_line + 1\<close>, and the report keeps the records whose length is above
  the threshold.
\<close>

record function_record =
  rec_name :: string
  start_line :: int
  end_line :: int

definition spec_long_functions :: "function_record list \<Rightarrow> int \<Rightarrow> (string \<times> int) list" where
  "spec_long_functions catalog threshold =
     map (\<lambda>r. (rec_name r, end_line r - start_line r + 1))
       (filter (\<lambda>r. end_line r - start_line r + 1 > threshold) catalog)"

section \<open>The trees of the sources named in the specification\<close>

text \<open>\<^verbatim>\<open>arguments\<close> of a function without parameters.\<close>

definition no_args :: node where
  "no_args = Unlocated ''arguments'' []"

text \<open>
  Scenario A:
  \<^verbatim>\<open>def f(): pass\<close>
  \<^verbatim>\<open>def g(): f()\<close>
\<close>

definition tree_A :: node where
  "tree_A = Module
     [FunctionDef 1 ''f'' no_args [Located ''Pass'' 1 []] [] None [],
      FunctionDef 2 ''g'' no_args
        [Located ''Expr'' 2 [Call 2 (Name 2 ''f'' Load) [] []]] [] None []] []"

text \<open>
  Scenario B:
  \<^verbatim>\<open>x = 1\<close>
  \<^verbatim>\<open>print(x)\<close>
  \<^verbatim>\<open>x = x + 1\<close>
\<close>

definition tree_B :: node where
  "tree_B = Module
     [Located ''Assign'' 1 [Name 1 ''x'' Store, Constant 1 (Num 1)],
      Located ''Expr'' 2 [Call 2 (Name 2 ''print'' Load) [Name 2 ''x'' Load] []],
      Located ''Assign'' 3 [Name 3 ''x'' Store,
        Located ''BinOp'' 3
          [Name 3 ''x'' Load, Unlocated ''Add'' [], Constant 3 (Num 1)]]] []"

text \<open>
  Scenario E:
  \<^verbatim>\<open>def h(): pass\<close>
  \<^verbatim>\<open>def h(): pass\<close>
\<close>

definition tree_E :: node where
  "tree_E = Module
     [FunctionDef 1 ''h'' no_args [Located ''Pass'' 1 []] [] None [],
      FunctionDef 2 ''h'' no_args [Located ''Pass'' 2 []] [] None []] []"

text \<open>
  A nested definition followed by a sibling:
  \<^verbatim>\<open>def a():\<close>
  \<^verbatim>\<open>    def b(): pass\<close>
  \<^verbatim>\<open>def c(): pass\<close>
\<close>

definition tree_nested :: node where
  "tree_nested = Module
     [FunctionDef 1 ''a'' no_args
        [FunctionDef 2 ''b'' no_args [Located ''Pass'' 2 []] [] None []] [] None [],
      FunctionDef 3 ''c'' no_args [Located ''Pass'' 3 []] [] None []] []"

text \<open>
  Direct recursion:
  \<^verbatim>\<open>def r(): r()\<close>
\<close>

definition tree_rec :: node where
  "tree_rec = Module
     [FunctionDef 1 ''r'' no_args
        [Located ''Expr'' 1 [Call 1 (Name 1 ''r'' Load) [] []]] [] None []] []"

text \<open>
  A call in a default value, and a name defined twice:
  \<^verbatim>\<open>def f(): pass\<close>
  \<^verbatim>\<open>def g(x=f()): pass\<close>
  \<^verbatim>\<open>def h(): f()\<close>
  \<^verbatim>\<open>def h(): pass\<close>
\<close>

definition tree_dup :: node where
  "tree_dup = Module
     [FunctionDef 1 ''f'' no_args [Located ''Pass'' 1 []] [] None [],
      FunctionDef 2 ''g''
        (Unlocated ''arguments'' [Located ''arg'' 2 [], Call 2 (Name 2 ''f'' Load) [] []])
        [Located ''Pass'' 2 []] [] None [],
      FunctionDef 3 ''h'' no_args
        [Located ''Expr'' 3 [Call 3 (Name 3 ''f'' Load) [] []]] [] None [],
      FunctionDef 4 ''h'' no_args [Located ''Pass'' 4 []] [] None []] []"

text \<open>
  A call inside a nested definition:
  \<^verbatim>\<open>def f():\<close>
  \<^verbatim>\<open> def g():\<close>
  \<^verbatim>\<open>  h()\<close>
  \<^verbatim>\<open>def h(): pass\<close>
\<close>

definition def_g :: node where
  "def_g = FunctionDef 2 ''g'' no_args
     [Located ''Expr'' 3 [Call 3 (Name 3 ''h'' Load) [] []]] [] None []"

definition def_f :: node where
  "def_f = FunctionDef 1 ''f'' no_args [def_g] [] None []"

definition def_h :: node where
  "def_h = FunctionDef 4 ''h'' no_args [Located ''Pass'' 4 []] [] None []"

definition tree_nested_call :: node where
  "tree_nested_call = Module [def_f, def_h] []"

text \<open>The same source with a fifth line, \<^verbatim>\<open>def f(): pass\<close>.\<close>

definition tree_redefined :: node where
  "tree_redefined = Module
     [def_f, def_h, FunctionDef 5 ''f'' no_args [Located ''Pass'' 5 []] [] None []] []"

text \<open>
  A function on the lines 5 to 14, the \<^verbatim>\<open>def\<close> on line 5 and one \<^verbatim>\<open>pass\<close> on each
  of the lines 6 to 14 (the lines 1 to 4 are blank).
\<close>

definition tree_C :: node where
  "tree_C = Module
     [FunctionDef 5 ''f'' no_args
        [Located ''Pass'' 6 [], Located ''Pass'' 7 [], Located ''Pass'' 8 [],
         Located ''Pass'' 9 [], Located ''Pass'' 10 [], Located ''Pass'' 11 [],
         Located ''Pass'' 12 [], Located ''Pass'' 13 [], Located ''Pass'' 14 []]
        [] None []] []"

text \<open>
  The name \<^verbatim>\<open>x\<close> as a function name, a parameter, an attribute and a string, and the
  name \<^verbatim>\<open>X\<close>:
  \<^verbatim>\<open>def x(x):\<close>
  \<^verbatim>\<open>    return obj.x + 'x' + X\<close>
\<close>

definition tree_names :: node where
  "tree_names = Module
     [FunctionDef 1 ''x'' (Unlocated ''arguments'' [Located ''arg'' 1 []])
        [Located ''Return'' 2
           [Located ''BinOp'' 2
              [Located ''BinOp'' 2
                 [Attribute 2 (Name 2 ''obj'' Load) ''x'' Load, Unlocated ''Add'' [],
                  Constant 2 (Str ''x'')],
               Unlocated ''Add'' [],
               Name 2 ''X'' Load]]]
        [] None []] []"

text \<open>
  An async definition and a lambda, each with a call:
  \<^verbatim>\<open>async def a():\<close>
  \<^verbatim>\<open>    a()\<close>
  \<^verbatim>\<open>f = lambda: a()\<close>
\<close>

definition tree_async :: node where
  "tree_async = Module
     [AsyncFunctionDef 1 ''a'' no_args
        [Located ''Expr'' 2 [Call 2 (Name 2 ''a'' Load) [] []]] [] None [],
      Located ''Assign'' 3
        [Name 3 ''f'' Store, Lambda 3 no_args (Call 3 (Name 3 ''a'' Load) [] [])]] []"

section \<open>The walk and the structure of the tree\<close>

lemma walk_todo_append:
  "walk_todo (xs @ ys) = xs @ walk_todo (ys @ concat (map iter_child_nodes xs))"
  by (induction xs arbitrary: ys) simp_all

lemma mset_walk_todo: "mset (walk_todo todo) = mset (concat (map preorder todo))"
proof (induction todo rule: walk_todo.induct)
  case 1
  show ?case by simp
next
  case (2 node todo)
  have "mset (preorder node) = {#node#} + mset (concat (map preorder (iter_child_nodes node)))"
    by (subst preorder.simps) simp
  with 2 show ?case by (simp add: ac_simps)
qed

lemma mset_walk: "mset (walk tree) = mset (preorder tree)"
  unfolding walk_def mset_walk_todo by simp

lemma set_walk: "set (walk tree) = set (preorder tree)"
  using mset_walk [of tree] by (metis set_mset_mset)

lemma preorder_self: "n \<in> set (preorder n)"
  by (subst preorder.simps) simp

lemma preorder_trans:
  "m \<in> set (preorder t) \<Longrightarrow> n \<in> set (preorder m) \<Longrightarrow> n \<in> set (preorder t)"
proof (induction t rule: preorder.induct)
  case (1 t)
  show ?case
  proof (cases "m = t")
    case True
    with 1 show ?thesis by simp
  next
    case False
    with "1.prems"(1) obtain c where c: "c \<in> set (iter_child_nodes t)" "m \<in> set (preorder c)"
      by (subst (asm) preorder.simps) auto
    with 1 have "n \<in> set (preorder c)" by blast
    with c show ?thesis by (subst preorder.simps) auto
  qed
qed

lemma walk_trans:
  "m \<in> set (walk t) \<Longrightarrow> n \<in> set (walk m) \<Longrightarrow> n \<in> set (walk t)"
  using preorder_trans by (simp add: set_walk)

lemma level_0: "level 0 todo = todo"
  by (induction todo) (simp_all add: level_def)

lemma level_Suc: "level (Suc d) todo = level d (concat (map iter_child_nodes todo))"
  by (induction todo) (simp_all add: level_def)

lemma walk_todo_levels:
  "level k todo = [] \<Longrightarrow> walk_todo todo = concat (map (\<lambda>d. level d todo) [0..<k])"
proof (induction k arbitrary: todo)
  case 0
  then show ?case by (simp add: level_0)
next
  case (Suc k)
  let ?next = "concat (map iter_child_nodes todo)"
  from Suc.prems have "level k ?next = []" by (simp add: level_Suc)
  then have "walk_todo ?next = concat (map (\<lambda>d. level d ?next) [0..<k])" by (rule Suc.IH)
  moreover have "walk_todo todo = todo @ walk_todo ?next"
    using walk_todo_append [of todo "[]"] by simp
  moreover have "[0..<Suc k] = 0 # map Suc [0..<k]"
    by (simp add: upt_conv_Cons map_Suc_upt del: upt_Suc)
  ultimately show ?case
    by (simp add: level_0 level_Suc comp_def del: upt_Suc)
qed

lemma nodes_at_bound: "nodes_at d n \<noteq> [] \<Longrightarrow> d < node_count n"
proof (induction d arbitrary: n)
  case 0
  then show ?case by (simp add: node_count_children)
next
  case (Suc d)
  then obtain c where c: "c \<in> set (iter_child_nodes n)" "nodes_at d c \<noteq> []" by auto
  then have "d < node_count c" by (simp add: Suc.IH)
  with node_count_child [OF c(1)] show ?case by simp
qed

lemma walk_levels: "walk tree = concat (map (\<lambda>d. nodes_at d tree) [0..<node_count tree])"
proof -
  have "level (node_count tree) [tree] = []"
    using nodes_at_bound [of "node_count tree" tree] by (auto simp: level_def)
  then have "walk_todo [tree] = concat (map (\<lambda>d. level d [tree]) [0..<node_count tree])"
    by (rule walk_todo_levels)
  then show ?thesis
    unfolding walk_def level_def by simp
qed

section \<open>Parse failures\<close>

text \<open>
  C1. When \<^verbatim>\<open>ast.parse\<close> raises on the source, each of the four analyses returns its
  empty result: the empty list for the catalog, the usage lines and the long functions,
  the graph without nodes and edges for the call graph. The result is a value; no
  exception reaches the caller.
\<close>

theorem parse_failure_empty_results:
  "parse_python_functions (Inl e) = []
   \<and> find_variable_usage (Inl e) var_name = []
   \<and> find_long_functions (Inl e) length_threshold = []
   \<and> build_call_graph (Inl e) = \<lparr>nodes = [], edges = []\<rparr>"
  by (simp add: parse_python_functions_def find_variable_usage_def find_long_functions_def
      build_call_graph_def DiGraph_def)

section \<open>The catalog\<close>

text \<open>
  C3. For a parsed source, the catalog has exactly one entry for each
  \<^verbatim>\<open>FunctionDef\<close> node of the tree, nested ones included: as many entries as the tree
  has such nodes, and each name as often as nodes carry it. Two definitions of the same
  name \<^verbatim>\<open>h\<close> give two entries.
\<close>

theorem catalog_one_entry_per_definition:
  "length (parse_python_functions (Inr tree)) = count_FunctionDef tree
   \<and> mset (parse_python_functions (Inr tree))
       = mset (map node_name (filter is_FunctionDef (preorder tree)))
   \<and> parse_python_functions (Inr tree_E) = [''h'', ''h'']"
proof -
  have m: "mset (filter is_FunctionDef (walk tree)) = mset (filter is_FunctionDef (preorder tree))"
    by (simp add: mset_walk)
  have "length (filter is_FunctionDef (walk tree)) = length (filter is_FunctionDef (preorder tree))"
    using m by (metis size_mset)
  moreover have "mset (map node_name (filter is_FunctionDef (walk tree)))
      = mset (map node_name (filter is_FunctionDef (preorder tree)))"
    using m by (metis mset_map)
  moreover have "parse_python_functions (Inr tree_E) = [''h'', ''h'']"
    by code_simp
  ultimately show ?thesis
    by (simp add: parse_python_functions_def count_FunctionDef_def)
qed

text \<open>
  The nodes \<open>d + k\<close> levels below a node are the nodes \<open>k\<close> levels below its nodes of
  level \<open>d\<close>, in the same order.
\<close>

lemma nodes_at_add: "nodes_at (d + k) tree = concat (map (nodes_at k) (nodes_at d tree))"
proof (induction d arbitrary: tree)
  case 0
  show ?case by simp
next
  case (Suc d)
  have "concat (map (nodes_at (d + k)) cs) = concat (map (nodes_at k) (concat (map (nodes_at d) cs)))"
    for cs
    by (induction cs) (simp_all add: Suc.IH)
  then show ?case by simp
qed

text \<open>
  C7, as the code has it. The catalog is in breadth-first order, the order of
  \<^verbatim>\<open>ast.walk\<close>: the definitions of level 0, then those of level 1, and so on, each
  level from left to right; the nodes nested \<open>k\<close> levels inside a node of level \<open>d\<close> are
  nodes of level \<open>d + k\<close>. So the entry of an enclosing function comes before the
  entries of the definitions nested in it, and the entry of a later sibling comes before
  them too.
\<close>

theorem catalog_level_order:
  "parse_python_functions (Inr tree)
     = concat (map (\<lambda>d. map node_name (filter is_FunctionDef (nodes_at d tree)))
         [0..<node_count tree])
   \<and> nodes_at (d + k) tree = concat (map (nodes_at k) (nodes_at d tree))"
proof -
  have "map node_name (filter is_FunctionDef (walk tree))
      = concat (map (\<lambda>d. map node_name (filter is_FunctionDef (nodes_at d tree)))
          [0..<node_count tree])"
    by (subst walk_levels) (simp add: filter_concat map_concat comp_def)
  then show ?thesis
    by (simp add: parse_python_functions_def nodes_at_add)
qed

text \<open>
  C7, as stated, fails on \<open>tree_nested\<close>: the catalog lists \<^verbatim>\<open>c\<close>, the later sibling
  of \<^verbatim>\<open>a\<close>, before \<^verbatim>\<open>b\<close>, which is nested in \<^verbatim>\<open>a\<close>; pre-order lists \<^verbatim>\<open>b\<close> first.
\<close>

theorem catalog_not_preorder:
  "parse_python_functions (Inr tree_nested) = [''a'', ''c'', ''b'']
   \<and> map node_name (filter is_FunctionDef (preorder tree_nested)) = [''a'', ''b'', ''c'']"
  by code_simp

section \<open>The usage lines\<close>

text \<open>
  C6. For a parsed source and a queried name, the lines that \<^verbatim>\<open>find_variable_usage\<close>
  returns are strictly ascending, hence without duplicates (on a parse failure the list
  is empty, so the same holds). For the source of scenario B and the name \<^verbatim>\<open>x\<close> the
  result is \<open>[1, 2, 3]\<close>.
\<close>

theorem usage_lines_ascending:
  "sorted_wrt (<) (find_variable_usage p var_name)
   \<and> distinct (find_variable_usage p var_name)
   \<and> find_variable_usage (Inr tree_B) ''x'' = [1, 2, 3]"
proof -
  have "sorted_wrt (<) (find_variable_usage p var_name)"
    by (cases p) (simp_all add: find_variable_usage_def)
  moreover have "distinct (find_variable_usage p var_name)"
    by (cases p) (simp_all add: find_variable_usage_def)
  moreover have "find_variable_usage (Inr tree_B) ''x'' = [1, 2, 3]"
    by code_simp
  ultimately show ?thesis by simp
qed

section \<open>The call graph\<close>

lemma nodes_add_node: "set (nodes (add_node g n)) = insert n (set (nodes g))"
  by (auto simp: add_node_def)

lemma edges_add_node: "edges (add_node g n) = edges g"
  by (simp add: add_node_def)

lemma nodes_add_edge: "set (nodes (add_edge g u v)) = insert u (insert v (set (nodes g)))"
  by (auto simp: add_edge_def Let_def nodes_add_node)

lemma edges_add_edge: "set (edges (add_edge g u v)) = insert (u, v) (set (edges g))"
  by (auto simp: add_edge_def Let_def edges_add_node)

lemma distinct_edges_add_edge: "distinct (edges g) \<Longrightarrow> distinct (edges (add_edge g u v))"
  by (simp add: add_edge_def Let_def edges_add_node)

lemma set_map_filter_conv: "set (List.map_filter f xs) = {y. \<exists>x \<in> set xs. f x = Some y}"
  by (induction xs) (auto split: option.splits)

lemma set_callees: "set (List.map_filter direct_callee (walk n)) = set (callees n)"
  by (simp add: callees_def set_map_filter_conv set_walk)

lemma nodes_call_step:
  "set (nodes (call_step funcs func_name g node))
     \<subseteq> insert func_name (set (map fst funcs) \<union> set (nodes g))"
  by (auto simp: call_step_def nodes_add_edge split: option.splits)

lemma edges_call_step:
  "set (edges (call_step funcs func_name g node))
     = set (edges g) \<union> {(func_name, c) | c. direct_callee node = Some c \<and> c \<in> set (map fst funcs)}"
  by (auto simp: call_step_def edges_add_edge split: option.splits)

lemma distinct_edges_call_step:
  "distinct (edges g) \<Longrightarrow> distinct (edges (call_step funcs func_name g node))"
  by (simp add: call_step_def distinct_edges_add_edge split: option.splits)

lemma nodes_foldl_call_step:
  "set (nodes (foldl (call_step funcs func_name) g ns))
     \<subseteq> insert func_name (set (map fst funcs) \<union> set (nodes g))"
proof (induction ns arbitrary: g)
  case Nil
  show ?case by auto
next
  case (Cons n ns)
  show ?case
    using Cons.IH [of "call_step funcs func_name g n"] nodes_call_step [of funcs func_name g n]
    by auto
qed

lemma edges_foldl_call_step:
  "set (edges (foldl (call_step funcs func_name) g ns))
     = set (edges g) \<union> {(func_name, c) | c. c \<in> set (List.map_filter direct_callee ns) \<and> c \<in> set (map fst funcs)}"
proof (induction ns arbitrary: g)
  case Nil
  show ?case by simp
next
  case (Cons n ns)
  show ?case
    unfolding foldl_Cons Cons.IH edges_call_step
    by (auto split: option.splits)
qed

lemma distinct_edges_foldl_call_step:
  "distinct (edges g) \<Longrightarrow> distinct (edges (foldl (call_step funcs func_name) g ns))"
  by (induction ns arbitrary: g) (simp_all add: distinct_edges_call_step)

lemma nodes_func_step:
  "fst item \<in> set (map fst funcs) \<Longrightarrow>
   set (nodes (func_step funcs g item)) \<subseteq> set (map fst funcs) \<union> set (nodes g)"
  using nodes_foldl_call_step [of funcs "fst item" "add_node g (fst item)" "walk (snd item)"]
  by (auto simp: func_step_def nodes_add_node)

lemma edges_func_step:
  "set (edges (func_step funcs g item))
     = set (edges g) \<union> {(fst item, c) | c. c \<in> set (callees (snd item)) \<and> c \<in> set (map fst funcs)}"
  by (simp add: func_step_def edges_foldl_call_step edges_add_node set_callees)

lemma distinct_edges_func_step:
  "distinct (edges g) \<Longrightarrow> distinct (edges (func_step funcs g item))"
  by (simp add: func_step_def distinct_edges_foldl_call_step edges_add_node)

lemma nodes_foldl_func_step:
  "set (map fst items) \<subseteq> set (map fst funcs) \<Longrightarrow>
   set (nodes (foldl (func_step funcs) g items)) \<subseteq> set (map fst funcs) \<union> set (nodes g)"
proof (induction items arbitrary: g)
  case Nil
  show ?case by auto
next
  case (Cons item items)
  then have "fst item \<in> set (map fst funcs)" by auto
  from nodes_func_step [OF this, of g] Cons.IH [of "func_step funcs g item"] Cons.prems
  show ?case by auto
qed

lemma edges_foldl_func_step:
  "set (edges (foldl (func_step funcs) g items))
     = set (edges g) \<union> {(a, c) | a c n. (a, n) \<in> set items \<and> c \<in> set (callees n) \<and> c \<in> set (map fst funcs)}"
proof (induction items arbitrary: g)
  case Nil
  show ?case by simp
next
  case (Cons item items)
  show ?case
    unfolding foldl_Cons Cons.IH edges_func_step
    by (cases item) auto
qed

lemma distinct_edges_foldl_func_step:
  "distinct (edges g) \<Longrightarrow> distinct (edges (foldl (func_step funcs) g items))"
  by (induction items arbitrary: g) (simp_all add: distinct_edges_func_step)

lemma keys_foldl_update:
  "fst ` set (foldl (\<lambda>funcs node. AList.update (f node) node funcs) acc xs)
     = fst ` set acc \<union> f ` set xs"
  by (induction xs arbitrary: acc) (auto simp: dom_update)

lemma keys_funcs_of: "fst ` set (funcs_of tree) = set (parse_python_functions (Inr tree))"
  by (simp add: funcs_of_def parse_python_functions_def keys_foldl_update)

lemma map_of_foldl_update:
  "map_of (foldl (\<lambda>funcs node. AList.update (f node) node funcs) acc xs)
     = map_of acc ++ map_of (rev (map (\<lambda>n. (f n, n)) xs))"
proof (induction xs arbitrary: acc)
  case Nil
  show ?case by simp
next
  case (Cons x xs)
  show ?case
    by (simp add: Cons.IH update_conv map_add_def fun_eq_iff split: option.splits)
qed

lemma map_of_find: "map_of (map (\<lambda>n. (f n, n)) xs) k = List.find (\<lambda>n. f n = k) xs"
  by (induction xs) auto

lemma map_of_funcs_of: "map_of (funcs_of tree) a = last_def tree a"
  by (simp add: funcs_of_def last_def_def map_of_foldl_update rev_map map_of_find)

lemma distinct_foldl_update:
  "distinct (map fst acc) \<Longrightarrow>
   distinct (map fst (foldl (\<lambda>funcs node. AList.update (f node) node funcs) acc xs))"
  by (induction xs arbitrary: acc) (simp_all add: distinct_update)

lemma distinct_funcs_of: "distinct (map fst (funcs_of tree))"
  by (simp add: funcs_of_def distinct_foldl_update)

lemma funcs_of_iff: "(a, n) \<in> set (funcs_of tree) \<longleftrightarrow> last_def tree a = Some n"
  using distinct_funcs_of [of tree] by (simp flip: map_of_funcs_of)

lemma edges_build_call_graph:
  "(a, b) \<in> set (edges (build_call_graph (Inr tree)))
     \<longleftrightarrow> (\<exists>n. last_def tree a = Some n \<and> b \<in> set (callees n)
            \<and> b \<in> set (parse_python_functions (Inr tree)))"
  by (auto simp: build_call_graph_def Let_def edges_foldl_func_step DiGraph_def funcs_of_iff
      simp flip: keys_funcs_of)

lemma distinct_edges_build_call_graph: "distinct (edges (build_call_graph p))"
  by (cases p) (simp_all add: build_call_graph_def Let_def DiGraph_def distinct_edges_foldl_func_step)

lemma callees_mono: "m \<in> set (preorder n) \<Longrightarrow> set (callees m) \<subseteq> set (callees n)"
  using preorder_trans by (auto simp: callees_def set_map_filter_conv)

text \<open>
  C8. For every input, parsed or not, every node of the graph that
  \<^verbatim>\<open>build_call_graph\<close> returns is a name that \<^verbatim>\<open>parse_python_functions\<close> returns for
  the same outcome of the parse.
\<close>

theorem call_graph_nodes_in_catalog:
  "set (nodes (build_call_graph p)) \<subseteq> set (parse_python_functions p)"
proof (cases p)
  case (Inl e)
  then show ?thesis by (simp add: build_call_graph_def DiGraph_def)
next
  case (Inr tree)
  have "set (nodes (foldl (func_step (funcs_of tree)) DiGraph (funcs_of tree)))
      \<subseteq> set (map fst (funcs_of tree)) \<union> set (nodes DiGraph)"
    by (rule nodes_foldl_func_step) simp
  with Inr show ?thesis
    by (simp add: build_call_graph_def Let_def DiGraph_def keys_funcs_of)
qed

text \<open>
  C2, as the code has it. For a parsed source, the graph has the edge from \<open>a\<close> to \<open>b\<close>
  exactly when the subtree of the last \<^verbatim>\<open>FunctionDef\<close> node named \<open>a\<close> in the order of
  the walk (its arguments and their defaults, its decorators, its body and the
  definitions nested in it) contains a \<^verbatim>\<open>Call\<close> node whose \<^verbatim>\<open>func\<close> is a \<^verbatim>\<open>Name\<close> node
  with \<^verbatim>\<open>id\<close> \<open>b\<close>, and \<open>b\<close> is a name of the catalog. The edges are without
  repetition; a call whose \<^verbatim>\<open>func\<close> is an attribute is no direct call; direct recursion
  gives a self-loop; for the source of scenario A the edges are exactly \<open>(g, f)\<close>.
\<close>

theorem call_graph_edges:
  "((a, b) \<in> set (edges (build_call_graph (Inr tree)))
      \<longleftrightarrow> (\<exists>n. last_def tree a = Some n \<and> b \<in> set (callees n)
             \<and> b \<in> set (parse_python_functions (Inr tree))))
   \<and> distinct (edges (build_call_graph (Inr tree)))
   \<and> direct_callee (Call l (Attribute l' v attr ctx) args keywords) = None
   \<and> edges (build_call_graph (Inr tree_rec)) = [(''r'', ''r'')]
   \<and> edges (build_call_graph (Inr tree_A)) = [(''g'', ''f'')]"
proof -
  have "edges (build_call_graph (Inr tree_rec)) = [(''r'', ''r'')]"
    by code_simp
  moreover have "edges (build_call_graph (Inr tree_A)) = [(''g'', ''f'')]"
    by code_simp
  ultimately show ?thesis
    using edges_build_call_graph [of a b tree] distinct_edges_build_call_graph [of "Inr tree"]
    by simp
qed

text \<open>
  C2, as stated, fails on \<open>tree_dup\<close> in both directions. The body of the first
  definition of \<^verbatim>\<open>h\<close> calls \<^verbatim>\<open>f\<close>, and the graph has no edge from \<^verbatim>\<open>h\<close> to \<^verbatim>\<open>f\<close>: the
  dictionary \<^verbatim>\<open>funcs\<close> keeps the second definition only. The body of \<^verbatim>\<open>g\<close> calls
  nothing, and the graph has the edge from \<^verbatim>\<open>g\<close> to \<^verbatim>\<open>f\<close>: the call is in the default
  value of a parameter.
\<close>

theorem call_graph_edges_not_by_body:
  "spec_call_edge tree_dup ''h'' ''f''
   \<and> (''h'', ''f'') \<notin> set (edges (build_call_graph (Inr tree_dup)))
   \<and> \<not> spec_call_edge tree_dup ''g'' ''f''
   \<and> (''g'', ''f'') \<in> set (edges (build_call_graph (Inr tree_dup)))"
  by code_simp

text \<open>
  C10, as the code has it. When \<open>f_node\<close> and \<open>g_node\<close> are the definitions that
  \<^verbatim>\<open>funcs\<close> keeps for the names \<open>f\<close> and \<open>g\<close> (the last ones of the walk with these
  names), \<open>g_node\<close> lies in the subtree of \<open>f_node\<close>, and the subtree of \<open>g_node\<close> has a
  direct call of the catalog name \<open>h\<close>, then the graph has the edge from \<open>f\<close> to \<open>h\<close> and
  the edge from \<open>g\<close> to \<open>h\<close>.
\<close>

theorem nested_call_edges:
  assumes "last_def tree f = Some f_node"
    and "last_def tree g = Some g_node"
    and "g_node \<in> set (preorder f_node)"
    and "h \<in> set (callees g_node)"
    and "h \<in> set (parse_python_functions (Inr tree))"
  shows "(f, h) \<in> set (edges (build_call_graph (Inr tree)))
    \<and> (g, h) \<in> set (edges (build_call_graph (Inr tree)))"
proof -
  from assms(3,4) have "h \<in> set (callees f_node)"
    using callees_mono by blast
  with assms show ?thesis
    by (simp add: edges_build_call_graph)
qed

text \<open>
  The source of C10, \<^verbatim>\<open>h()\<close> in \<^verbatim>\<open>g\<close> in \<^verbatim>\<open>f\<close> with \<^verbatim>\<open>h\<close> defined beside \<^verbatim>\<open>f\<close>: both
  edges are there.
\<close>

theorem nested_call_edges_witness:
  "last_def tree_nested_call ''f'' = Some def_f
   \<and> last_def tree_nested_call ''g'' = Some def_g
   \<and> def_g \<in> set (preorder def_f)
   \<and> ''h'' \<in> set (callees def_g)
   \<and> ''h'' \<in> set (parse_python_functions (Inr tree_nested_call))
   \<and> (''f'', ''h'') \<in> set (edges (build_call_graph (Inr tree_nested_call)))
   \<and> (''g'', ''h'') \<in> set (edges (build_call_graph (Inr tree_nested_call)))"
proof -
  have 1: "last_def tree_nested_call ''f'' = Some def_f" by code_simp
  have 2: "last_def tree_nested_call ''g'' = Some def_g" by code_simp
  have 3: "def_g \<in> set (preorder def_f)" by code_simp
  have 4: "''h'' \<in> set (callees def_g)" by code_simp
  have 5: "''h'' \<in> set (parse_python_functions (Inr tree_nested_call))" by code_simp
  from nested_call_edges [OF 1 2 3 4 5] 1 2 3 4 5 show ?thesis by simp
qed

text \<open>
  C10, as stated, fails on \<open>tree_redefined\<close>: the call of \<^verbatim>\<open>h\<close> is inside \<^verbatim>\<open>g\<close>, which is
  nested in the first definition of \<^verbatim>\<open>f\<close>; the graph has the edge from \<^verbatim>\<open>g\<close> to \<^verbatim>\<open>h\<close>
  and no edge from \<^verbatim>\<open>f\<close> to \<^verbatim>\<open>h\<close>, since \<^verbatim>\<open>funcs\<close> keeps the later definition of
  \<^verbatim>\<open>f\<close> and the first one is not scanned.
\<close>

theorem nested_call_edge_lost:
  "def_f \<in> set (preorder tree_redefined) \<and> node_name def_f = ''f''
   \<and> def_g \<in> set (preorder def_f) \<and> def_g \<noteq> def_f \<and> node_name def_g = ''g''
   \<and> ''h'' \<in> set (callees def_g)
   \<and> ''h'' \<in> set (parse_python_functions (Inr tree_redefined))
   \<and> (''g'', ''h'') \<in> set (edges (build_call_graph (Inr tree_redefined)))
   \<and> (''f'', ''h'') \<notin> set (edges (build_call_graph (Inr tree_redefined)))"
  by code_simp

section \<open>Which nodes the usage lines report\<close>

lemma usage_lines_set:
  "set (usage_lines var_name ns) = {l. \<exists>ctx. Name l var_name ctx \<in> set ns}"
proof (induction var_name ns rule: usage_lines.induct)
qed auto

text \<open>
  C5, as the code has it. For a parsed source and a queried name, the lines reported
  are exactly the lines of the \<^verbatim>\<open>Name\<close> nodes of the tree whose \<^verbatim>\<open>id\<close> is equal to the
  queried name, character for character, in whatever context (\<^verbatim>\<open>Load\<close>, \<^verbatim>\<open>Store\<close> or
  \<^verbatim>\<open>Del\<close>): reads and assignment targets alike. The name of a function definition, a
  parameter, an attribute and the contents of a string are no \<^verbatim>\<open>Name\<close> nodes and are
  not reported, and \<^verbatim>\<open>X\<close> is not \<^verbatim>\<open>x\<close>.
\<close>

theorem usage_reports_name_nodes:
  "set (find_variable_usage (Inr tree) var_name)
     = {l. \<exists>ctx. Name l var_name ctx \<in> set (preorder tree)}
   \<and> find_variable_usage (Inr tree_names) ''x'' = []
   \<and> find_variable_usage (Inr tree_names) ''X'' = [2]"
proof -
  have "find_variable_usage (Inr tree_names) ''x'' = []" by code_simp
  moreover have "find_variable_usage (Inr tree_names) ''X'' = [2]" by code_simp
  moreover have "set (find_variable_usage (Inr tree) var_name)
      = set (usage_lines var_name (walk tree))"
    by (simp add: find_variable_usage_def)
  ultimately show ?thesis
    by (simp add: usage_lines_set set_walk)
qed

text \<open>
  C5, as stated, fails on the source of scenario B: line 1, \<^verbatim>\<open>x = 1\<close>, is reported for
  \<^verbatim>\<open>x\<close>, and \<^verbatim>\<open>x\<close> is only assigned there; the read references are on the lines 2
  and 3.
\<close>

theorem usage_reports_store_targets:
  "find_variable_usage (Inr tree_B) ''x'' = [1, 2, 3]
   \<and> spec_read_lines tree_B ''x'' = [2, 3]"
  by code_simp

section \<open>The long functions\<close>

lemma long_funcs_loop_located:
  "list_all (\<lambda>n. list_all (\<lambda>s. lineno s \<noteq> None) (body_of n)) (filter is_FunctionDef ns) \<Longrightarrow>
   long_funcs_loop t ns acc
     = Inr (acc @ map (\<lambda>n. (node_name n, body_length n))
         (filter (\<lambda>n. body_of n \<noteq> [] \<and> t < body_length n) (filter is_FunctionDef ns)))"
proof (induction t ns acc rule: long_funcs_loop.induct)
  case (1 t acc)
  show ?case by simp
next
  case (2 t l name args body decs ret tps rest acc)
  let ?n = "FunctionDef l name args body decs ret tps"
  from "2.prems" have rest: "list_all (\<lambda>n. list_all (\<lambda>s. lineno s \<noteq> None) (body_of n))
      (filter is_FunctionDef rest)"
    by simp
  show ?case
  proof (cases "body = []")
    case True
    from "2.IH"(3) [OF _ rest] True show ?thesis by simp
  next
    case False
    from "2.prems" have "\<forall>s \<in> set body. lineno s \<noteq> None"
      by (simp add: list_all_iff)
    with False have "lineno (last body) \<noteq> None" "lineno (hd body) \<noteq> None"
      by simp_all
    then obtain a b where ab: "lineno (last body) = Some a" "lineno (hd body) = Some b"
      by auto
    then have len: "func_len body = Inr (a - b + 1)"
      by (simp add: func_len_def)
    from ab have bl: "body_length ?n = a - b + 1"
      by (simp add: body_length_def)
    show ?thesis
    proof (cases "t < a - b + 1")
      case True
      from "2.IH"(1) [OF False len _ rest] True False len bl show ?thesis by simp
    next
      case False
      from "2.IH"(2) [OF \<open>body \<noteq> []\<close> len _ rest] False \<open>body \<noteq> []\<close> len bl show ?thesis by simp
    qed
  qed
qed simp_all

lemma long_funcs_loop_names:
  "long_funcs_loop t ns acc = Inr r \<Longrightarrow>
   fst ` set r \<subseteq> fst ` set acc \<union> node_name ` {n \<in> set ns. is_FunctionDef n}"
proof (induction t ns acc arbitrary: r rule: long_funcs_loop.induct)
  case (1 t acc)
  then show ?case by auto
next
  case (2 t l name args body decs ret tps rest acc)
  let ?n = "FunctionDef l name args body decs ret tps"
  let ?D = "node_name ` {n \<in> set rest. is_FunctionDef n}"
  have "{n \<in> set (?n # rest). is_FunctionDef n} = insert ?n {n \<in> set rest. is_FunctionDef n}"
    by auto
  then have D: "node_name ` {n \<in> set (?n # rest). is_FunctionDef n} = insert name ?D"
    by simp
  show ?case
  proof (cases "body = []")
    case True
    with "2.prems" have "long_funcs_loop t rest acc = Inr r" by simp
    from "2.IH"(3) [OF _ this] True show ?thesis unfolding D by auto
  next
    case False
    with "2.prems" obtain k where k: "func_len body = Inr k"
      by (cases "func_len body") simp_all
    show ?thesis
    proof (cases "t < k")
      case True
      with "2.prems" False k have "long_funcs_loop t rest (acc @ [(name, k)]) = Inr r" by simp
      from "2.IH"(1) [OF False k True this] show ?thesis unfolding D by auto
    next
      case nk: False
      with "2.prems" False k have "long_funcs_loop t rest acc = Inr r" by simp
      from "2.IH"(2) [OF False k nk this] show ?thesis unfolding D by auto
    qed
  qed
qed auto

lemma find_long_functions_names:
  "fst ` set (find_long_functions (Inr tree) t)
     \<subseteq> node_name ` {n \<in> set (walk tree). is_FunctionDef n}"
proof (cases "long_funcs_loop t (walk tree) []")
  case (Inl e)
  then show ?thesis by (simp add: find_long_functions_def)
next
  case (Inr r)
  from long_funcs_loop_names [OF this] Inr show ?thesis
    by (simp add: find_long_functions_def)
qed

text \<open>
  C4, as the code has it. For a parsed source whose function bodies are made of
  statements with line numbers, and every threshold, \<^verbatim>\<open>find_long_functions\<close> returns
  exactly the pairs (name, length) of the \<^verbatim>\<open>FunctionDef\<close> nodes with a non-empty body
  whose length is strictly greater than the threshold, in the order of the catalog (the
  order of the walk), where the length is the line of the last statement of the body
  minus the line of the first statement of the body plus one.
\<close>

theorem long_functions_by_body_lines:
  assumes "stmts_located tree"
  shows "find_long_functions (Inr tree) t
    = map (\<lambda>n. (node_name n, body_length n))
        (filter (\<lambda>n. body_of n \<noteq> [] \<and> t < body_length n)
          (filter is_FunctionDef (walk tree)))"
proof -
  from assms have "list_all (\<lambda>n. list_all (\<lambda>s. lineno s \<noteq> None) (body_of n))
      (filter is_FunctionDef (walk tree))"
    by (simp add: stmts_located_def list_all_iff set_walk)
  then show ?thesis
    by (simp add: find_long_functions_def long_funcs_loop_located)
qed

text \<open>
  The function on the lines 5 to 14, with its body on the lines 6 to 14, has length 9:
  it is reported with the threshold 8 and not with the threshold 9.
\<close>

theorem long_functions_by_body_lines_witness:
  "stmts_located tree_C
   \<and> find_long_functions (Inr tree_C) 8 = [(''f'', 9)]
   \<and> find_long_functions (Inr tree_C) 9 = []"
proof -
  have h: "stmts_located tree_C" by code_simp
  have 8: "map (\<lambda>n. (node_name n, body_length n))
        (filter (\<lambda>n. body_of n \<noteq> [] \<and> 8 < body_length n)
          (filter is_FunctionDef (walk tree_C))) = [(''f'', 9)]"
    by code_simp
  have 9: "map (\<lambda>n. (node_name n, body_length n))
        (filter (\<lambda>n. body_of n \<noteq> [] \<and> 9 < body_length n)
          (filter is_FunctionDef (walk tree_C))) = []"
    by code_simp
  from h 8 9 long_functions_by_body_lines [OF h, of 8] long_functions_by_body_lines [OF h, of 9]
  show ?thesis by simp
qed

text \<open>
  C4, as stated, fails on \<open>tree_C\<close>: by \<open>end_line - start_line + 1\<close> the function on the
  lines 5 to 14 has length 10 and is reported with the threshold 9; the code reports
  nothing with the threshold 9.
\<close>

theorem long_functions_not_by_span:
  "spec_long_functions [\<lparr>rec_name = ''f'', start_line = 5, end_line = 14\<rparr>] 9 = [(''f'', 10)]
   \<and> find_long_functions (Inr tree_C) 9 = []"
  by code_simp

section \<open>Plain function definitions only\<close>

text \<open>
  C9. Every entry of the catalog, every entry of the length report and every node of
  the call graph carries the name of a \<^verbatim>\<open>FunctionDef\<close> node of the tree; an
  \<^verbatim>\<open>AsyncFunctionDef\<close> node and a \<^verbatim>\<open>Lambda\<close> node are no \<^verbatim>\<open>FunctionDef\<close> nodes. For a
  source with an async definition and a lambda only, the catalog, the length report
  (with threshold 0) and the call graph are empty.
\<close>

theorem only_FunctionDef_counts:
  "set (parse_python_functions (Inr tree))
     \<subseteq> node_name ` {n \<in> set (preorder tree). is_FunctionDef n}
   \<and> fst ` set (find_long_functions (Inr tree) t)
     \<subseteq> node_name ` {n \<in> set (preorder tree). is_FunctionDef n}
   \<and> set (nodes (build_call_graph (Inr tree)))
     \<subseteq> node_name ` {n \<in> set (preorder tree). is_FunctionDef n}
   \<and> \<not> is_FunctionDef (AsyncFunctionDef l name args body decorator_list returns type_params)
   \<and> \<not> is_FunctionDef (Lambda l' args' body')
   \<and> parse_python_functions (Inr tree_async) = []
   \<and> find_long_functions (Inr tree_async) 0 = []
   \<and> build_call_graph (Inr tree_async) = \<lparr>nodes = [], edges = []\<rparr>"
proof -
  let ?D = "node_name ` {n \<in> set (preorder tree). is_FunctionDef n}"
  have cat: "set (parse_python_functions (Inr tree)) = ?D"
    by (simp add: parse_python_functions_def set_walk)
  have long: "fst ` set (find_long_functions (Inr tree) t) \<subseteq> ?D"
    using find_long_functions_names [of tree t] by (simp add: set_walk)
  have "set (nodes (foldl (func_step (funcs_of tree)) DiGraph (funcs_of tree)))
      \<subseteq> set (map fst (funcs_of tree)) \<union> set (nodes DiGraph)"
    by (rule nodes_foldl_func_step) simp
  then have "set (nodes (build_call_graph (Inr tree))) \<subseteq> fst ` set (funcs_of tree)"
    by (simp add: build_call_graph_def Let_def DiGraph_def)
  then have graph: "set (nodes (build_call_graph (Inr tree))) \<subseteq> ?D"
    unfolding keys_funcs_of cat .
  have a1: "parse_python_functions (Inr tree_async) = []" by code_simp
  have a2: "find_long_functions (Inr tree_async) 0 = []" by code_simp
  have a3: "build_call_graph (Inr tree_async) = \<lparr>nodes = [], edges = []\<rparr>" by code_simp
  from cat long graph a1 a2 a3 show ?thesis by simp
qed

end
